theory Spec2Isabelle
  imports Complex_Main "HOL-Library.Sublist"
begin

section \<open>Page geometry (usePagination.ts, lines 8-20)\<close>

text \<open>
  The source computes the geometry with JavaScript numbers. Every value that occurs is an
  integer far below \<open>2^53\<close> (\<open>scrollHeight\<close> and canvas sizes are integer DOM attributes,
  and \<open>8.5 * 96 = 816\<close> exactly), so the numbers are modelled as \<^typ>\<open>int\<close>. The only
  non-integer intermediate value is the quotient inside \<open>Math.ceil\<close>; it is modelled as the
  quotient of reals.
\<close>

definition LETTER_HEIGHT_INCHES :: int where
  "LETTER_HEIGHT_INCHES = 11"

definition MARGIN_INCHES :: int where
  "MARGIN_INCHES = 1"

definition DPI :: int where
  "DPI = 96"

definition LETTER_WIDTH_PX :: int where
  \<comment> \<open>\<open>LETTER_WIDTH_INCHES * DPI\<close> with \<open>LETTER_WIDTH_INCHES = 8.5\<close>, that is \<open>17 / 2\<close>\<close>
  "LETTER_WIDTH_PX = 17 * DPI div 2"

definition LETTER_HEIGHT_PX :: int where
  "LETTER_HEIGHT_PX = LETTER_HEIGHT_INCHES * DPI"

definition MARGIN_PX :: int where
  "MARGIN_PX = MARGIN_INCHES * DPI"

definition CONTENT_WIDTH_PX :: int where
  "CONTENT_WIDTH_PX = LETTER_WIDTH_PX - 2 * MARGIN_PX"

definition CONTENT_HEIGHT_PX :: int where
  "CONTENT_HEIGHT_PX = LETTER_HEIGHT_PX - 2 * MARGIN_PX"


section \<open>The pagination engine (usePagination.ts, lines 22-60)\<close>

record PageBreak =
  pageNumber :: int
  heightFromTop :: int

text \<open>The two \<open>useState\<close> cells of the hook, initially \<open>[]\<close> and \<open>1\<close>.\<close>

record PaginationState =
  pageBreaks :: "PageBreak list"
  totalPages :: int

definition initialPagination :: PaginationState where
  "initialPagination = \<lparr>pageBreaks = [], totalPages = 1\<rparr>"

text \<open>\<open>Math.ceil(a / b)\<close> on two integer-valued numbers.\<close>

definition Math_ceil_div :: "int \<Rightarrow> int \<Rightarrow> int" where
  "Math_ceil_div a b = \<lceil>real_of_int a / real_of_int b\<rceil>"

text \<open>
  The \<open>while\<close> loop of \<open>calculatePageBreaks\<close> (lines 36-46). The source reads the module
  constant \<open>CONTENT_HEIGHT_PX\<close>; here it is the parameter \<open>P\<close>, so that statements about
  every positive page height can be made. For \<open>P \<le> 0\<close> the loop of the source need not
  stop, hence the result is an option and \<open>None\<close> stands for a loop that runs forever.
\<close>

partial_function (option) pageBreaksLoop ::
  "int \<Rightarrow> int \<Rightarrow> int \<Rightarrow> int \<Rightarrow> PageBreak list \<Rightarrow> PageBreak list option" where
  "pageBreaksLoop P contentHeight pageNum nextPageTop breaks =
     (if nextPageTop < contentHeight
      then pageBreaksLoop P contentHeight (pageNum + 1) ((pageNum + 1) * P)
             (breaks @ [\<lparr>pageNumber = pageNum, heightFromTop = nextPageTop\<rparr>])
      else Some breaks)"

text \<open>
  \<open>calculatePageBreaks\<close>: the first argument is \<open>CONTENT_HEIGHT_PX\<close>, the second is
  \<open>contentRef.current\<close> reduced to what is read from it (\<open>None\<close> for a null reference,
  otherwise its \<open>scrollHeight\<close>), the third the state of the hook before the call. The
  early \<open>return\<close> of line 29 leaves the state as it is.
\<close>

definition calculatePageBreaks ::
  "int \<Rightarrow> int option \<Rightarrow> PaginationState \<Rightarrow> PaginationState option" where
  "calculatePageBreaks P current st =
     (case current of
        None \<Rightarrow> Some st
      | Some contentHeight \<Rightarrow>
          (case pageBreaksLoop P contentHeight 1 P [] of
             None \<Rightarrow> None
           | Some breaks \<Rightarrow>
               Some (st\<lparr>pageBreaks := breaks,
                         totalPages := max 1 (Math_ceil_div contentHeight P)\<rparr>)))"


text \<open>The loop equation is the code equation of the loop.\<close>

declare pageBreaksLoop.simps [code]

text \<open>Auxiliary: the break that ends page \<open>k\<close> when pages are \<open>P\<close> high.\<close>

definition mkBreak :: "int \<Rightarrow> int \<Rightarrow> PageBreak" where
  "mkBreak P k = \<lparr>pageNumber = k, heightFromTop = k * P\<rparr>"


section \<open>The page chrome (PageBreakVisualizer)\<close>

text \<open>
  \<open>String(n)\<close> for a non-negative integer \<open>n\<close> (below \<open>10^21\<close>, where JavaScript still
  prints every digit): the decimal digits, most significant first.
\<close>

definition digit_char :: "nat \<Rightarrow> char" where
  "digit_char d = ''0123456789'' ! d"

fun String_nat :: "nat \<Rightarrow> string" where
  "String_nat n =
     (if n < 10 then [digit_char n] else String_nat (n div 10) @ [digit_char (n mod 10)])"

declare String_nat.simps [simp del]

definition String_int :: "int \<Rightarrow> string" where
  "String_int k = (if k < 0 then CHR ''-'' # String_nat (nat (- k)) else String_nat (nat k))"

text \<open>
  \<open>s.replace(pat, rep)\<close> with a string pattern: the leftmost occurrence of \<open>pat\<close> in \<open>s\<close>
  is replaced, the rest of \<open>s\<close> is copied. The replacement strings of the source are
  decimal numbers, so the \<open>$\<close> patterns of JavaScript replacements do not occur. The
  pattern of the source, \<open>{page}\<close>, is ASCII, so it does not matter for the search in which
  units the characters of the other strings are counted.
\<close>

fun String_replace :: "string \<Rightarrow> string \<Rightarrow> string \<Rightarrow> string" where
  "String_replace [] pat rep = (if pat = [] then rep else [])"
| "String_replace (c # cs) pat rep =
     (if prefix pat (c # cs) then rep @ drop (length pat) (c # cs)
      else c # String_replace cs pat rep)"


text \<open>
  The properties of the component (lines 482-493). \<open>headerText\<close> and \<open>footerText\<close> are
  optional (\<open>None\<close> is \<open>undefined\<close>); \<open>showPageNumbers\<close> defaults to \<open>true\<close>. The fields
  \<open>pageBreaks\<close> and \<open>totalPages\<close> carry a prefix, the plain names being those of the
  hook's state.
\<close>

record VisualizerProps =
  propPageBreaks :: "PageBreak list"
  marginPx :: int
  contentHeightPx :: int
  contentWidthPx :: int
  propTotalPages :: int
  headerText :: "string option"
  footerText :: "string option"
  showPageNumbers :: "bool option"

definition PAGE_GAP_PX :: int where
  "PAGE_GAP_PX = 28"

text \<open>
  A string in a condition: \<open>undefined\<close> and the empty string are false, every other
  string is true.
\<close>

definition truthy :: "string option \<Rightarrow> bool" where
  "truthy s = (case s of None \<Rightarrow> False | Some t \<Rightarrow> t \<noteq> [])"

text \<open>The footer expression of lines 570-572, for the page with index \<open>i\<close>.\<close>

definition footerContent :: "string option \<Rightarrow> bool \<Rightarrow> nat \<Rightarrow> string" where
  "footerContent footer showNumbers i =
     (case footer of
        Some t \<Rightarrow>
          if t \<noteq> [] then String_replace t ''{page}'' (String_nat (i + 1))
          else if showNumbers then ''Page '' @ String_nat (i + 1) else []
      | None \<Rightarrow> if showNumbers then ''Page '' @ String_nat (i + 1) else [])"

text \<open>What is rendered: one background per page, the gap strips, the break lines.\<close>

record PageBackground =
  bgWidth :: int
  bgHeight :: int
  bgTop :: int
  bgHeader :: "string option"
  bgFooter :: string

record GapStrip =
  gapWidth :: int
  gapHeight :: int
  gapTop :: int

record BreakLine =
  lineKey :: int
  lineTop :: int
  lineWidth :: int
  lineLabel :: string

record Rendered =
  minHeight :: int
  pageBackgrounds :: "PageBackground list"
  gapStrips :: "GapStrip list"
  breakLines :: "BreakLine list"

text \<open>
  \<open>Array.from({ length: n }).map((_, i) => ...)\<close> runs over the indices \<open>0, ..., n - 1\<close>
  (none when \<open>n \<le> 0\<close>). The \<open>top\<close> of a break line is the CSS length
  \<open>`${heightFromTop + marginPx}px`\<close>; the model keeps the number of pixels.
\<close>

definition PageBreakVisualizer :: "VisualizerProps \<Rightarrow> Rendered" where
  "PageBreakVisualizer p =
     (let showNumbers = (case showPageNumbers p of None \<Rightarrow> True | Some b \<Rightarrow> b);
          wrapperHeight =
            max (contentHeightPx p * propTotalPages p
                   + PAGE_GAP_PX * max 0 (propTotalPages p - 1))
                (contentHeightPx p)
      in \<lparr>minHeight = wrapperHeight,
          pageBackgrounds =
            map (\<lambda>i. \<lparr>bgWidth = contentWidthPx p,
                       bgHeight = contentHeightPx p,
                       bgTop = int i * (contentHeightPx p + PAGE_GAP_PX),
                       bgHeader = (if truthy (headerText p) then headerText p else None),
                       bgFooter = footerContent (footerText p) showNumbers i\<rparr>)
                [0 ..< nat (max 1 (propTotalPages p))],
          gapStrips =
            map (\<lambda>i. \<lparr>gapWidth = contentWidthPx p,
                       gapHeight = PAGE_GAP_PX,
                       gapTop = (int i + 1) * (contentHeightPx p + PAGE_GAP_PX) - PAGE_GAP_PX\<rparr>)
                [0 ..< nat (max 0 (propTotalPages p - 1))],
          breakLines =
            map (\<lambda>pageBreak.
                   \<lparr>lineKey = pageNumber pageBreak,
                    lineTop = heightFromTop pageBreak + marginPx p,
                    lineWidth = contentWidthPx p,
                    lineLabel = ''Page '' @ String_int (pageNumber pageBreak)\<rparr>)
                (propPageBreaks p)\<rparr>)"


section \<open>The export pipeline (exportToPDF, DocumentEditor.tsx lines 133-175)\<close>

text \<open>The canvas that \<open>html2canvas\<close> returns; only its size is read.\<close>

record Canvas =
  canvasWidth :: int
  canvasHeight :: int

text \<open>
  A page canvas: its size, the \<open>fillStyle\<close> with which \<open>fillRect(0, 0, width, height)\<close>
  painted it, and the source rectangle of the \<open>drawImage\<close> call; the destination
  rectangle of that call is the whole page canvas.
\<close>

record PageCanvas =
  pcWidth :: int
  pcHeight :: int
  pcFill :: string
  sx :: int
  sy :: int
  sWidth :: int
  sHeight :: int

text \<open>
  The calls made on the jsPDF document, in order: \<open>addPage()\<close> and
  \<open>addImage(imgData, 'PNG', x, y, w, h)\<close>, where \<open>w\<close> and \<open>h\<close> are the size at which the
  image is placed on the page, in the units of the document.
\<close>

datatype pdf_call = AddPage | AddImage PageCanvas int int int int

record PdfDoc =
  formatWidth :: int
  formatHeight :: int
  calls :: "pdf_call list"

text \<open>The \<open>for\<close> loop of lines 153-169.\<close>

function exportLoop ::
  "int \<Rightarrow> int \<Rightarrow> int \<Rightarrow> int \<Rightarrow> int \<Rightarrow> int \<Rightarrow> int \<Rightarrow> pdf_call list \<Rightarrow> pdf_call list" where
  "exportLoop W P pageWidthPx pageHeightPx totalHeight totalPagesPdf i pdf =
     (if i < totalPagesPdf
      then
        let pageCanvas =
              \<lparr>pcWidth = pageWidthPx,
               pcHeight = min pageHeightPx (totalHeight - i * pageHeightPx),
               pcFill = ''#ffffff'',
               sx = 0,
               sy = i * pageHeightPx,
               sWidth = pageWidthPx,
               sHeight = min pageHeightPx (totalHeight - i * pageHeightPx)\<rparr>
        in exportLoop W P pageWidthPx pageHeightPx totalHeight totalPagesPdf (i + 1)
             (pdf @ (if i > 0 then [AddPage] else []) @ [AddImage pageCanvas 0 0 W P])
      else pdf)"
  by pat_completeness auto
termination
  by (relation "measure (\<lambda>(W, P, pw, ph, th, n, i, pdf). nat (n - i))") auto

declare exportLoop.simps [simp del]

text \<open>
  The outcome of one call of \<open>exportToPDF\<close>: the \<open>style.background\<close> of the content
  element afterwards (\<open>None\<close> when there is no element), the document handed to
  \<open>pdf.save\<close> (\<open>None\<close> when \<open>save\<close> is never reached), and the error with which the
  returned promise is rejected, if it is.
\<close>

record ExportOutcome =
  background :: "string option"
  saved :: "PdfDoc option"
  rejected :: "string option"

text \<open>
  \<open>exportToPDF\<close>. \<open>W\<close>, \<open>P\<close> and \<open>scale\<close> are \<open>CONTENT_WIDTH_PX\<close>, \<open>CONTENT_HEIGHT_PX\<close>
  and the constant \<open>scale = 2\<close> of the source; \<open>current\<close> is \<open>contentRef.current\<close>
  reduced to its \<open>style.background\<close>; \<open>capture\<close> is how the awaited \<open>html2canvas\<close> call
  ends: \<open>Inl e\<close> when it throws \<open>e\<close>, \<open>Inr canvas\<close> when it returns \<open>canvas\<close>.
\<close>

definition exportToPDF ::
  "int \<Rightarrow> int \<Rightarrow> int \<Rightarrow> string option \<Rightarrow> string + Canvas \<Rightarrow> ExportOutcome" where
  "exportToPDF W P scale current capture =
     (case current of
        None \<Rightarrow> \<lparr>background = None, saved = None, rejected = None\<rparr>
      | Some previousBg \<Rightarrow>
          (case capture of
             Inl e \<Rightarrow> \<lparr>background = Some ''#ffffff'', saved = None, rejected = Some e\<rparr>
           | Inr canvas \<Rightarrow>
               let pageWidthPx = W * scale;
                   pageHeightPx = P * scale;
                   totalHeight = canvasHeight canvas;
                   totalPagesPdf = Math_ceil_div totalHeight pageHeightPx;
                   pdf = exportLoop W P pageWidthPx pageHeightPx totalHeight totalPagesPdf 0 []
               in \<lparr>background = Some previousBg,
                   saved = Some \<lparr>formatWidth = W, formatHeight = P, calls = pdf\<rparr>,
                   rejected = None\<rparr>))"

text \<open>
  The number of pages of the saved document. jsPDF creates a document with one page and
  \<open>addPage()\<close> appends one; this is why line 167 calls \<open>addPage\<close> only for \<open>i > 0\<close>, and
  why the document that line 174 saves has a page even when the loop never runs.
\<close>

fun addPageCalls :: "pdf_call list \<Rightarrow> nat" where
  "addPageCalls [] = 0"
| "addPageCalls (AddPage # cs) = Suc (addPageCalls cs)"
| "addPageCalls (AddImage c x y w h # cs) = addPageCalls cs"

definition getNumberOfPages :: "PdfDoc \<Rightarrow> nat" where
  "getNumberOfPages pdf = 1 + addPageCalls (calls pdf)"


section \<open>Debounced recalculation (usePagination.ts, lines 55-60)\<close>

text \<open>
  The hook together with the timers of the platform, on a virtual clock that counts
  milliseconds. \<open>timers\<close> are the pending timeouts, each with its id and the time at which
  it is due; \<open>setTimeout\<close> hands out fresh positive ids, so an id in \<open>debounceTimerRef\<close> is
  never false in a condition. The only callback ever registered is the one of line 57,
  which runs \<open>calculatePageBreaks\<close>. \<open>recomputations\<close> records every run of that callback:
  the time and the content reference it read.
\<close>

record Hook =
  pagination :: PaginationState
  debounceTimerRef :: "nat option"
  timers :: "(nat \<times> nat) list"
  nextTimerId :: nat
  recomputations :: "(nat \<times> int option) list"

definition mounted :: "PaginationState \<Rightarrow> Hook" where
  "mounted st =
     \<lparr>pagination = st, debounceTimerRef = None, timers = [], nextTimerId = 1,
      recomputations = []\<rparr>"

definition clearTimeout :: "nat \<Rightarrow> Hook \<Rightarrow> Hook" where
  "clearTimeout timerId h = h\<lparr>timers := filter (\<lambda>(i, due). i \<noteq> timerId) (timers h)\<rparr>"

definition setTimeout :: "nat \<Rightarrow> nat \<Rightarrow> Hook \<Rightarrow> nat \<times> Hook" where
  "setTimeout now delay h =
     (nextTimerId h,
      h\<lparr>timers := timers h @ [(nextTimerId h, now + delay)],
        nextTimerId := nextTimerId h + 1\<rparr>)"

text \<open>\<open>recalculate\<close>, called at the time \<open>now\<close>.\<close>

definition recalculate :: "nat \<Rightarrow> Hook \<Rightarrow> Hook" where
  "recalculate now h =
     (let h1 = (case debounceTimerRef h of
                  Some timerId \<Rightarrow> clearTimeout timerId h
                | None \<Rightarrow> h);
          (timerId, h2) = setTimeout now 150 h1
      in h2\<lparr>debounceTimerRef := Some timerId\<rparr>)"

text \<open>
  The event loop runs the callbacks of the given timers one after the other, each to
  completion and each at the time it is due; \<open>current\<close> gives \<open>contentRef.current\<close>
  (reduced to its \<open>scrollHeight\<close>) at every time. A timer that has fired is no longer
  pending.
\<close>

fun fireTimers :: "int \<Rightarrow> (nat \<Rightarrow> int option) \<Rightarrow> (nat \<times> nat) list \<Rightarrow> Hook \<Rightarrow> Hook option" where
  "fireTimers P current [] h = Some h"
| "fireTimers P current ((timerId, due) # rest) h =
     (case calculatePageBreaks P (current due) (pagination h) of
        None \<Rightarrow> None
      | Some st \<Rightarrow>
          fireTimers P current rest
            (h\<lparr>timers := remove1 (timerId, due) (timers h),
               pagination := st,
               recomputations := recomputations h @ [(due, current due)]\<rparr>))"

text \<open>Letting the clock reach \<open>t\<close>: every timer due by then fires, in the order of the due times.\<close>

definition advance :: "int \<Rightarrow> (nat \<Rightarrow> int option) \<Rightarrow> nat \<Rightarrow> Hook \<Rightarrow> Hook option" where
  "advance P current t h =
     fireTimers P current (sort_key snd (filter (\<lambda>(i, due). due \<le> t) (timers h))) h"

text \<open>
  A run: recalculation triggers at the given times, in this order; before each trigger the
  clock reaches its time.
\<close>

fun triggers :: "int \<Rightarrow> (nat \<Rightarrow> int option) \<Rightarrow> nat list \<Rightarrow> Hook \<Rightarrow> Hook option" where
  "triggers P current [] h = Some h"
| "triggers P current (t # ts) h =
     (case advance P current t h of
        None \<Rightarrow> None
      | Some h' \<Rightarrow> triggers P current ts (recalculate t h'))"

definition triggersThen :: "int \<Rightarrow> (nat \<Rightarrow> int option) \<Rightarrow> nat list \<Rightarrow> nat \<Rightarrow> Hook \<Rightarrow> Hook option" where
  "triggersThen P current ts tEnd h =
     (case triggers P current ts h of None \<Rightarrow> None | Some h' \<Rightarrow> advance P current tEnd h')"

text \<open>
  The debounce rule in the words of the specification: of the triggers at the times \<open>ts\<close>,
  one causes a recomputation, 150 ms later, exactly when no further trigger arrives within
  these 150 ms; for the last trigger, when the clock gets that far.
\<close>

fun debouncedRuns :: "nat list \<Rightarrow> nat \<Rightarrow> nat list" where
  "debouncedRuns [] tEnd = []"
| "debouncedRuns [t] tEnd = (if t + 150 \<le> tEnd then [t + 150] else [])"
| "debouncedRuns (t # t' # ts) tEnd =
     (if t + 150 \<le> t' then [t + 150] else []) @ debouncedRuns (t' # ts) tEnd"


section \<open>Auxiliary definitions for the statements\<close>

text \<open>The number that a string of decimal digits denotes.\<close>

definition digit_value :: "char \<Rightarrow> nat" where
  "digit_value c = of_char c - 48"

definition decimal_value :: "string \<Rightarrow> nat" where
  "decimal_value s = foldl (\<lambda>n c. 10 * n + digit_value c) 0 s"

text \<open>Example inputs.\<close>

definition exampleProps :: VisualizerProps where
  "exampleProps =
     \<lparr>propPageBreaks = [\<lparr>pageNumber = 1, heightFromTop = 864\<rparr>,
                        \<lparr>pageNumber = 2, heightFromTop = 1728\<rparr>],
      marginPx = 96, contentHeightPx = 864, contentWidthPx = 624, propTotalPages = 3,
      headerText = Some ''Draft'', footerText = Some ''Page {page} of N'',
      showPageNumbers = Some True\<rparr>"

definition exampleHeight :: "nat \<Rightarrow> int option" where
  "exampleHeight t = Some (10 * int t)"


section \<open>Properties of the pagination engine\<close>

lemma CONTENT_HEIGHT_PX_value: "CONTENT_HEIGHT_PX = 864"
  by (simp add: CONTENT_HEIGHT_PX_def LETTER_HEIGHT_PX_def MARGIN_PX_def
      LETTER_HEIGHT_INCHES_def MARGIN_INCHES_def DPI_def)

lemma CONTENT_WIDTH_PX_value: "CONTENT_WIDTH_PX = 624"
  by (simp add: CONTENT_WIDTH_PX_def LETTER_WIDTH_PX_def MARGIN_PX_def
      MARGIN_INCHES_def DPI_def)

lemma Math_ceil_div_eq: "Math_ceil_div a b = - ((- a) div b)"
  unfolding Math_ceil_div_def by (rule ceiling_divide_eq_div)

lemma lt_iff_le_div: "0 < P \<Longrightarrow> (k * P < H) = (k \<le> (H - 1) div P)" for P :: int
proof -
  assume P: "0 < P"
  have "(k \<le> (H - 1) div P) = (real_of_int k \<le> real_of_int (H - 1) / real_of_int P)"
    by (simp only: le_floor_iff flip: floor_divide_of_int_eq[where ?'a = real])
  also have "\<dots> = (real_of_int k * real_of_int P \<le> real_of_int (H - 1))"
    using P by (simp add: pos_le_divide_eq)
  also have "\<dots> = (k * P \<le> H - 1)"
    by (simp only: of_int_le_iff flip: of_int_mult)
  also have "\<dots> = (k * P < H)" by linarith
  finally show ?thesis by simp
qed

lemma pageBreaksLoop_result:
  "0 < P \<Longrightarrow>
   pageBreaksLoop P H k (k * P) acc = Some (acc @ map (mkBreak P) [k .. (H - 1) div P])"
proof (induction "nat ((H - 1) div P + 1 - k)" arbitrary: k acc)
  case 0
  then have "\<not> k \<le> (H - 1) div P" by simp
  with 0 show ?case
    by (subst pageBreaksLoop.simps) (simp add: lt_iff_le_div)
next
  case (Suc n)
  then have le: "k \<le> (H - 1) div P" by linarith
  have n: "n = nat ((H - 1) div P + 1 - (k + 1))" using Suc.hyps(2) by linarith
  show ?case
    using Suc.hyps(1)[OF n Suc.prems, of "acc @ [mkBreak P k]"] le Suc.prems
    by (subst pageBreaksLoop.simps) (simp add: lt_iff_le_div upto_rec1[of k] mkBreak_def)
qed


lemma calculatePageBreaks_Some:
  assumes "0 < P"
  shows "calculatePageBreaks P (Some H) st =
         Some \<lparr>pageBreaks = map (mkBreak P) [1 .. (H - 1) div P],
               totalPages = max 1 (Math_ceil_div H P)\<rparr>"
  using pageBreaksLoop_result[OF assms, of H 1 "[]"]
  by (simp add: calculatePageBreaks_def)

lemma set_breaks:
  assumes "0 < P"
  shows "set (map (mkBreak P) [1 .. (H - 1) div P]) =
         {\<lparr>pageNumber = k, heightFromTop = k * P\<rparr> | k. 1 \<le> k \<and> k * P < H}"
  using assms by (auto simp: mkBreak_def lt_iff_le_div)

lemma sorted_breaks:
  assumes "0 < P"
  shows "sorted_wrt (\<lambda>a b. heightFromTop a < heightFromTop b) (map (mkBreak P) [i .. j])"
proof -
  have "sorted_wrt (\<lambda>a b. a * P < b * P) [i .. j]"
    using assms sorted_wrt_mono_rel[of "[i..j]" "(<)" "\<lambda>a b. a * P < b * P"]
    by simp
  then show ?thesis by (simp add: sorted_wrt_map mkBreak_def)
qed

lemma last_breaks:
  assumes "0 < P" "2 \<le> k"
  shows "last (map (mkBreak P) [1 .. (k * P - 1) div P]) = mkBreak P (k - 1)"
proof -
  have "(k - 1) * P \<le> k * P - 1" using assms by (simp add: algebra_simps)
  moreover have "\<not> k * P \<le> k * P - 1" by simp
  ultimately have d: "(k * P - 1) div P = k - 1"
    using lt_iff_le_div[OF assms(1), of "k - 1" "k * P"] lt_iff_le_div[OF assms(1), of k "k * P"]
    by linarith
  have "[1 .. k - 1] = [1 .. k - 1 - 1] @ [k - 1]"
    using assms(2) upto_rec2[of 1 "k - 1"] by simp
  then show ?thesis by (simp add: d)
qed

text \<open>
  Claim C1. For every measured content height \<open>H \<ge> 0\<close> and page content height
  \<open>P > 0\<close> the recomputation returns, and it sets \<open>totalPages = max(1, ceil(H / P))\<close>;
  for \<open>H = 0\<close> it produces \<open>totalPages = 1\<close> together with an empty \<open>pageBreaks\<close>.
\<close>

theorem totalPages_formula:
  "0 \<le> H \<Longrightarrow> 0 < P \<Longrightarrow>
     (\<exists>bs. calculatePageBreaks P (Some H) st =
            Some \<lparr>pageBreaks = bs, totalPages = max 1 \<lceil>real_of_int H / real_of_int P\<rceil>\<rparr>) \<and>
     calculatePageBreaks P (Some 0) st = Some \<lparr>pageBreaks = [], totalPages = 1\<rparr>"
  using lt_iff_le_div[of P 1 0]
  by (simp add: calculatePageBreaks_Some Math_ceil_div_def)

theorem totalPages_formula_witness:
  "(0::int) \<le> 2593 \<and> (0::int) < 864 \<and>
   (\<exists>bs. calculatePageBreaks 864 (Some 2593) initialPagination =
            Some \<lparr>pageBreaks = bs, totalPages = 4\<rparr>) \<and>
   calculatePageBreaks 864 (Some 0) initialPagination = Some \<lparr>pageBreaks = [], totalPages = 1\<rparr>"
  using totalPages_formula[of 2593 864 initialPagination] by simp

text \<open>
  Claim C2. For \<open>H \<ge> 0\<close> and \<open>P > 0\<close> the recomputation returns a state whose
  \<open>pageBreaks\<close> are exactly the entries \<open>{pageNumber: k, heightFromTop: k * P}\<close> for the
  integers \<open>k \<ge> 1\<close> with \<open>k * P < H\<close>, strictly ascending in \<open>heightFromTop\<close>; no break
  lies at or beyond \<open>H\<close>; for \<open>H = k * P\<close> with \<open>k \<ge> 2\<close> the last break is at
  \<open>(k - 1) * P\<close>; and the new state is the same whatever the previous state was, so no
  break of an earlier, larger height survives.
\<close>

theorem pageBreaks_exact:
  "0 \<le> H \<Longrightarrow> 0 < P \<Longrightarrow>
   (\<exists>st'. calculatePageBreaks P (Some H) st = Some st' \<and>
      set (pageBreaks st') =
        {\<lparr>pageNumber = k, heightFromTop = k * P\<rparr> | k. 1 \<le> k \<and> k * P < H} \<and>
      sorted_wrt (\<lambda>a b. heightFromTop a < heightFromTop b) (pageBreaks st') \<and>
      (\<forall>b \<in> set (pageBreaks st'). heightFromTop b < H) \<and>
      (\<forall>k. 2 \<le> k \<and> H = k * P \<longrightarrow>
         last (pageBreaks st') = \<lparr>pageNumber = k - 1, heightFromTop = (k - 1) * P\<rparr>) \<and>
      (\<forall>prev. calculatePageBreaks P (Some H) prev = Some st'))"
proof -
  assume H: "0 \<le> H" and P: "0 < P"
  let ?bs = "map (mkBreak P) [1 .. (H - 1) div P]"
  let ?st = "\<lparr>pageBreaks = ?bs, totalPages = max 1 (Math_ceil_div H P)\<rparr>"
  have 1: "\<forall>prev. calculatePageBreaks P (Some H) prev = Some ?st"
    using calculatePageBreaks_Some[OF P] by simp
  have 2: "set ?bs = {\<lparr>pageNumber = k, heightFromTop = k * P\<rparr> | k. 1 \<le> k \<and> k * P < H}"
    by (rule set_breaks[OF P])
  have 3: "sorted_wrt (\<lambda>a b. heightFromTop a < heightFromTop b) ?bs"
    by (rule sorted_breaks[OF P])
  have 4: "\<forall>b \<in> set ?bs. heightFromTop b < H"
    unfolding 2 by auto
  have 5: "\<forall>k. 2 \<le> k \<and> H = k * P \<longrightarrow>
         last ?bs = \<lparr>pageNumber = k - 1, heightFromTop = (k - 1) * P\<rparr>"
    using last_breaks[OF P] by (simp add: mkBreak_def)
  show ?thesis
    using 1 2 3 4 5 by (intro exI[of _ ?st]) simp
qed

theorem pageBreaks_exact_witness:
  "(0::int) \<le> 2592 \<and> (0::int) < 864 \<and>
   calculatePageBreaks 864 (Some 2592) initialPagination =
     Some \<lparr>pageBreaks = [\<lparr>pageNumber = 1, heightFromTop = 864\<rparr>,
                          \<lparr>pageNumber = 2, heightFromTop = 1728\<rparr>], totalPages = 3\<rparr>"
  using pageBreaks_exact[of 2592 864 initialPagination]
  by (simp add: calculatePageBreaks_def pageBreaksLoop.simps Math_ceil_div_eq initialPagination_def)

section \<open>Properties of the export pipeline and of degenerate measurements\<close>

lemma Math_ceil_div_nonpos: "0 < P \<Longrightarrow> H \<le> 0 \<Longrightarrow> Math_ceil_div H P \<le> 0"
  unfolding Math_ceil_div_def by (simp add: ceiling_le_iff divide_nonpos_pos)

lemma Math_ceil_div_pos: "0 < P \<Longrightarrow> 0 < H \<Longrightarrow> 1 \<le> Math_ceil_div H P"
  unfolding Math_ceil_div_def by (simp add: le_ceiling_iff)

lemma Math_ceil_div_scale: "0 < s \<Longrightarrow> Math_ceil_div (H * s) (P * s) = Math_ceil_div H P"
  unfolding Math_ceil_div_def by simp

lemma no_breaks_nonpos:
  assumes "0 < P" "H \<le> 0"
  shows "[1 .. (H - 1) div P] = []"
proof -
  have "\<not> 1 * P < H" using assms by simp
  then have "\<not> 1 \<le> (H - 1) div P" using lt_iff_le_div[OF assms(1), of 1 H] by simp
  then show ?thesis by simp
qed

lemma calculatePageBreaks_nonpos:
  assumes "0 < P" "H \<le> 0"
  shows "calculatePageBreaks P (Some H) st = Some \<lparr>pageBreaks = [], totalPages = 1\<rparr>"
  unfolding calculatePageBreaks_Some[OF assms(1)] no_breaks_nonpos[OF assms]
  using Math_ceil_div_nonpos[OF assms] by simp

text \<open>
  Claim C6 as stated fails for a content reference that is null (nothing to measure):
  the early \<open>return\<close> keeps the previous state, here one with two pages, which is not the
  state computed for \<open>H = 0\<close>.
\<close>

theorem stale_state_counterexample:
  "calculatePageBreaks 864 None
     \<lparr>pageBreaks = [\<lparr>pageNumber = 1, heightFromTop = 864\<rparr>], totalPages = 2\<rparr>
   \<noteq> calculatePageBreaks 864 (Some 0)
     \<lparr>pageBreaks = [\<lparr>pageNumber = 1, heightFromTop = 864\<rparr>], totalPages = 2\<rparr>"
  by (simp add: calculatePageBreaks_def pageBreaksLoop.simps)

text \<open>
  Claim C6, amended. A negative height gives the state of \<open>H = 0\<close>, that is
  \<open>totalPages = 1\<close> and no page breaks; with no element to measure the recomputation
  returns as well and leaves the state as it was.
\<close>

theorem negative_height_as_zero:
  "0 < P \<Longrightarrow> H < 0 \<Longrightarrow>
     calculatePageBreaks P (Some H) st = Some \<lparr>pageBreaks = [], totalPages = 1\<rparr> \<and>
     calculatePageBreaks P (Some H) st = calculatePageBreaks P (Some 0) st \<and>
     calculatePageBreaks P None st = Some st"
proof -
  assume P: "0 < P" and H: "H < 0"
  have "calculatePageBreaks P (Some H) st = Some \<lparr>pageBreaks = [], totalPages = 1\<rparr>"
    using P H by (simp add: calculatePageBreaks_nonpos)
  moreover have "calculatePageBreaks P (Some 0) st = Some \<lparr>pageBreaks = [], totalPages = 1\<rparr>"
    using P by (simp add: calculatePageBreaks_nonpos)
  moreover have "calculatePageBreaks P None st = Some st"
    by (simp add: calculatePageBreaks_def)
  ultimately show ?thesis by simp
qed

theorem negative_height_as_zero_witness:
  "(0::int) < 864 \<and> (-5::int) < 0 \<and>
   calculatePageBreaks 864 (Some (-5)) \<lparr>pageBreaks = [\<lparr>pageNumber = 1, heightFromTop = 864\<rparr>], totalPages = 2\<rparr>
     = Some \<lparr>pageBreaks = [], totalPages = 1\<rparr> \<and>
   calculatePageBreaks 864 (Some (-5)) \<lparr>pageBreaks = [\<lparr>pageNumber = 1, heightFromTop = 864\<rparr>], totalPages = 2\<rparr>
     = calculatePageBreaks 864 (Some 0) \<lparr>pageBreaks = [\<lparr>pageNumber = 1, heightFromTop = 864\<rparr>], totalPages = 2\<rparr> \<and>
   calculatePageBreaks 864 None \<lparr>pageBreaks = [\<lparr>pageNumber = 1, heightFromTop = 864\<rparr>], totalPages = 2\<rparr>
     = Some \<lparr>pageBreaks = [\<lparr>pageNumber = 1, heightFromTop = 864\<rparr>], totalPages = 2\<rparr>"
  using negative_height_as_zero[of 864 "-5" "\<lparr>pageBreaks = [\<lparr>pageNumber = 1, heightFromTop = 864\<rparr>], totalPages = 2\<rparr>"]
  by (simp add: calculatePageBreaks_def pageBreaksLoop.simps)

lemma addPageCalls_append:
  "addPageCalls (xs @ ys) = addPageCalls xs + addPageCalls ys"
  by (induction xs rule: addPageCalls.induct) simp_all

lemma addPageCalls_exportLoop:
  "0 \<le> i \<Longrightarrow>
   addPageCalls (exportLoop W P pw ph th n i pdf) = addPageCalls pdf + nat (n - max i 1)"
proof (induction W P pw ph th n i pdf rule: exportLoop.induct)
  case (1 W P pw ph th n i pdf)
  show ?case
  proof (cases "i < n")
    case True
    let ?c = "\<lparr>pcWidth = pw, pcHeight = min ph (th - i * ph), pcFill = ''#ffffff'',
               sx = 0, sy = i * ph, sWidth = pw, sHeight = min ph (th - i * ph)\<rparr>"
    let ?pdf = "pdf @ (if i > 0 then [AddPage] else []) @ [AddImage ?c 0 0 W P]"
    have unfold: "exportLoop W P pw ph th n i pdf = exportLoop W P pw ph th n (i + 1) ?pdf"
      using True by (subst exportLoop.simps) (simp add: Let_def)
    have "0 \<le> i + 1" using "1.prems" by simp
    from "1.IH"[OF True refl this]
    have ih: "addPageCalls (exportLoop W P pw ph th n (i + 1) ?pdf)
                = addPageCalls ?pdf + nat (n - max (i + 1) 1)" .
    have cnt: "addPageCalls ?pdf = addPageCalls pdf + (if 0 < i then 1 else 0)"
      by (simp add: addPageCalls_append)
    have step: "(if 0 < i then 1 else 0) + nat (n - max (i + 1) 1) = nat (n - max i 1)"
      using True "1.prems" by auto
    show ?thesis
      unfolding unfold ih cnt using step by simp
  next
    case False
    with "1.prems" have "nat (n - max i 1) = 0" by simp
    with False show ?thesis by (subst exportLoop.simps) simp
  qed
qed

text \<open>
  Claim C4. For every content height \<open>H \<ge> 0\<close>, page height \<open>P > 0\<close> and scale factor
  \<open>scale > 0\<close>: when the captured image is \<open>H * scale\<close> high, the export saves a document
  with as many pages as the pagination engine counts for \<open>H\<close>.
\<close>

theorem export_count_eq_totalPages:
  "0 \<le> H \<Longrightarrow> 0 < P \<Longrightarrow> 0 < scale \<Longrightarrow> canvasHeight canvas = H * scale \<Longrightarrow>
   (\<exists>st' pdf. calculatePageBreaks P (Some H) st = Some st' \<and>
      saved (exportToPDF W P scale (Some bg) (Inr canvas)) = Some pdf \<and>
      int (getNumberOfPages pdf) = totalPages st')"
proof -
  assume H: "0 \<le> H" and P: "0 < P" and s: "0 < scale"
    and c: "canvasHeight canvas = H * scale"
  let ?n = "Math_ceil_div H P"
  let ?pdf = "\<lparr>formatWidth = W, formatHeight = P,
               calls = exportLoop W P (W * scale) (P * scale) (H * scale) ?n 0 []\<rparr>"
  have sv: "saved (exportToPDF W P scale (Some bg) (Inr canvas)) = Some ?pdf"
    using c s by (simp add: exportToPDF_def Let_def Math_ceil_div_scale)
  have "addPageCalls (calls ?pdf) = nat (?n - 1)"
    using addPageCalls_exportLoop[of 0 W P "W * scale" "P * scale" "H * scale" ?n "[]"]
    by simp
  then have "int (getNumberOfPages ?pdf) = 1 + max 0 (?n - 1)"
    by (simp add: getNumberOfPages_def)
  then have "int (getNumberOfPages ?pdf) = max 1 ?n" by simp
  then show ?thesis
    using sv by (simp add: calculatePageBreaks_Some[OF P])
qed

theorem export_count_eq_totalPages_witness:
  "(0::int) \<le> 2160 \<and> (0::int) \<le> 0 \<and> (0::int) < 864 \<and> (0::int) < 2 \<and>
   canvasHeight \<lparr>canvasWidth = 1248, canvasHeight = 4320\<rparr> = 2160 * 2 \<and>
   canvasHeight \<lparr>canvasWidth = 1248, canvasHeight = 0\<rparr> = 0 * 2 \<and>
   (\<exists>st' pdf. calculatePageBreaks 864 (Some 2160) initialPagination = Some st' \<and>
      saved (exportToPDF 624 864 2 (Some [])
         (Inr \<lparr>canvasWidth = 1248, canvasHeight = 4320\<rparr>)) = Some pdf \<and>
      int (getNumberOfPages pdf) = totalPages st' \<and> totalPages st' = 3) \<and>
   (\<exists>st' pdf. calculatePageBreaks 864 (Some 0) initialPagination = Some st' \<and>
      saved (exportToPDF 624 864 2 (Some [])
         (Inr \<lparr>canvasWidth = 1248, canvasHeight = 0\<rparr>)) = Some pdf \<and>
      int (getNumberOfPages pdf) = totalPages st' \<and> totalPages st' = 1)"
  using export_count_eq_totalPages[of 2160 864 2 "\<lparr>canvasWidth = 1248, canvasHeight = 4320\<rparr>"
      initialPagination 624 "[]"]
    export_count_eq_totalPages[of 0 864 2 "\<lparr>canvasWidth = 1248, canvasHeight = 0\<rparr>"
      initialPagination 624 "[]"]
  by (simp add: calculatePageBreaks_def pageBreaksLoop.simps Math_ceil_div_eq
      initialPagination_def)

text \<open>
  Claim C3 at a captured image \<open>2.5\<close> pages high (\<open>864 * 2 * 2.5 = 4320\<close>). Three page
  images are produced, each \<open>624 * 2\<close> wide, but the third is only \<open>864\<close> pixels high, the
  rows that are left, and not \<open>864 * 2\<close>; nothing is padded below it. \<open>addImage\<close> places it
  at \<open>624\<close> by \<open>864\<close> units like the full pages, so its rows are spread over the whole
  page height.
\<close>

theorem export_last_page_stretched:
  "exportToPDF 624 864 2 (Some ''#f5f5f5'') (Inr \<lparr>canvasWidth = 1248, canvasHeight = 4320\<rparr>) =
     \<lparr>background = Some ''#f5f5f5'',
      saved = Some \<lparr>formatWidth = 624, formatHeight = 864,
        calls =
          [AddImage \<lparr>pcWidth = 1248, pcHeight = 1728, pcFill = ''#ffffff'',
                     sx = 0, sy = 0, sWidth = 1248, sHeight = 1728\<rparr> 0 0 624 864,
           AddPage,
           AddImage \<lparr>pcWidth = 1248, pcHeight = 1728, pcFill = ''#ffffff'',
                     sx = 0, sy = 1728, sWidth = 1248, sHeight = 1728\<rparr> 0 0 624 864,
           AddPage,
           AddImage \<lparr>pcWidth = 1248, pcHeight = 864, pcFill = ''#ffffff'',
                     sx = 0, sy = 3456, sWidth = 1248, sHeight = 864\<rparr> 0 0 624 864]\<rparr>,
      rejected = None\<rparr>"
  by (simp add: exportToPDF_def exportLoop.simps Math_ceil_div_eq Let_def)

text \<open>
  Claim C7 at a failing capture. No document is saved and the promise is rejected with the
  error of the capture, but the \<open>style.background\<close> of the content element stays at the
  white that line 139 set: line 172, which restores it, is never reached.
\<close>

theorem export_failure_keeps_white_background:
  "exportToPDF 624 864 2 (Some ''#f5f5f5'') (Inl ''capture failed'') =
     \<lparr>background = Some ''#ffffff'', saved = None, rejected = Some ''capture failed''\<rparr>"
  by (simp add: exportToPDF_def)

section \<open>Properties of the page chrome\<close>

lemma digit_value_digit_char: "d < 10 \<Longrightarrow> digit_value (digit_char d) = d"
proof -
  assume "d < 10"
  then have "d \<in> {0, 1, 2, 3, 4, 5, 6, 7, 8, 9}" by auto
  then show ?thesis by (auto simp: digit_value_def digit_char_def)
qed

lemma decimal_value_String_nat: "decimal_value (String_nat n) = n"
proof (induction n rule: String_nat.induct)
  case (1 n)
  show ?case
  proof (cases "n < 10")
    case True
    then show ?thesis
      by (subst String_nat.simps) (simp add: decimal_value_def digit_value_digit_char)
  next
    case False
    then show ?thesis
      using 1[OF False]
      by (subst String_nat.simps) (simp add: decimal_value_def digit_value_digit_char)
  qed
qed

lemma String_replace_prefix:
  "prefix pat s \<Longrightarrow> String_replace s pat rep = rep @ drop (length pat) s"
  by (cases s) auto

lemma String_replace_at:
  "(\<forall>k < length a. \<not> prefix pat (drop k (a @ pat @ b))) \<Longrightarrow>
   String_replace (a @ pat @ b) pat rep = a @ rep @ b"
proof (induction a)
  case Nil
  show ?case using String_replace_prefix[of pat "pat @ b" rep] by simp
next
  case (Cons x a)
  from Cons.prems have 0: "\<not> prefix pat (x # a @ pat @ b)" by fastforce
  have "\<forall>k < length a. \<not> prefix pat (drop k (a @ pat @ b))"
  proof (intro allI impI)
    fix k assume "k < length a"
    then have "Suc k < length (x # a)" by simp
    with Cons.prems have "\<not> prefix pat (drop (Suc k) ((x # a) @ pat @ b))" by blast
    then show "\<not> prefix pat (drop k (a @ pat @ b))" by simp
  qed
  from Cons.IH[OF this] 0 show ?case by simp
qed

lemma page_no_border:
  assumes "''{page}'' = u @ r" "u \<noteq> []" "prefix r (''{page}'' @ b)"
  shows "r = []"
  using assms by (auto simp: Cons_eq_append_conv prefix_Cons)

lemma page_first_occurrence:
  assumes "\<not> sublist ''{page}'' a"
  shows "\<forall>k < length a. \<not> prefix ''{page}'' (drop k (a @ ''{page}'' @ b))"
proof (intro allI impI notI)
  fix k assume k: "k < length a" and p: "prefix ''{page}'' (drop k (a @ ''{page}'' @ b))"
  let ?u = "drop k a"
  from k have u: "?u \<noteq> []" by simp
  from k p have "prefix ''{page}'' (?u @ ''{page}'' @ b)" by simp
  then consider "prefix ''{page}'' ?u" | r where "''{page}'' = ?u @ r" "prefix r (''{page}'' @ b)"
    unfolding prefix_append by blast
  then have "prefix ''{page}'' ?u"
  proof cases
    case 1 then show ?thesis .
  next
    case 2
    with page_no_border[OF 2(1) u 2(2)] show ?thesis by simp
  qed
  then obtain w where "?u = ''{page}'' @ w" by (auto simp: prefix_def)
  then have "a = take k a @ ''{page}'' @ w" by (metis append_take_drop_id)
  then have "sublist ''{page}'' a" unfolding sublist_def by blast
  with assms show False by contradiction
qed

lemma String_replace_absent:
  "\<not> sublist pat s \<Longrightarrow> String_replace s pat rep = s"
proof (induction s)
  case Nil
  then show ?case by auto
next
  case (Cons c cs)
  then have "\<not> prefix pat (c # cs)" using prefix_imp_sublist by blast
  moreover from Cons.prems have "\<not> sublist pat cs" by (meson sublist_Cons_right)
  ultimately show ?case using Cons.IH by simp
qed

lemma nth_pageBackgrounds:
  "int i < max 1 (propTotalPages p) \<Longrightarrow>
   pageBackgrounds (PageBreakVisualizer p) ! i =
     \<lparr>bgWidth = contentWidthPx p,
      bgHeight = contentHeightPx p,
      bgTop = int i * (contentHeightPx p + PAGE_GAP_PX),
      bgHeader = (if truthy (headerText p) then headerText p else None),
      bgFooter = footerContent (footerText p)
                   (case showPageNumbers p of None \<Rightarrow> True | Some b \<Rightarrow> b) i\<rparr>"
proof -
  assume "int i < max 1 (propTotalPages p)"
  then have "i < nat (max 1 (propTotalPages p))" by linarith
  then show ?thesis by (simp add: PageBreakVisualizer_def Let_def)
qed

lemma length_pageBackgrounds:
  "length (pageBackgrounds (PageBreakVisualizer p)) = nat (max 1 (propTotalPages p))"
  by (simp add: PageBreakVisualizer_def Let_def)

text \<open>
  Claim C8. For every page index \<open>i\<close> below \<open>totalPages\<close> there is a page background,
  \<open>contentWidthPx\<close> wide and \<open>contentHeightPx\<close> high, at the top offset
  \<open>i * (contentHeightPx + PAGE_GAP_PX)\<close>; and there is one break line per page break, the
  \<open>j\<close>-th at \<open>heightFromTop + marginPx\<close> of the \<open>j\<close>-th break and labelled with its
  \<open>pageNumber\<close>.
\<close>

theorem chrome_layout:
  "(int i < propTotalPages p \<longrightarrow>
      i < length (pageBackgrounds (PageBreakVisualizer p)) \<and>
      bgWidth (pageBackgrounds (PageBreakVisualizer p) ! i) = contentWidthPx p \<and>
      bgHeight (pageBackgrounds (PageBreakVisualizer p) ! i) = contentHeightPx p \<and>
      bgTop (pageBackgrounds (PageBreakVisualizer p) ! i) =
        int i * (contentHeightPx p + PAGE_GAP_PX)) \<and>
   length (breakLines (PageBreakVisualizer p)) = length (propPageBreaks p) \<and>
   (j < length (propPageBreaks p) \<longrightarrow>
      lineTop (breakLines (PageBreakVisualizer p) ! j) =
        heightFromTop (propPageBreaks p ! j) + marginPx p \<and>
      lineLabel (breakLines (PageBreakVisualizer p) ! j) =
        ''Page '' @ String_int (pageNumber (propPageBreaks p ! j)))"
proof -
  have "int i < propTotalPages p \<longrightarrow> int i < max 1 (propTotalPages p)" by simp
  then show ?thesis
    by (auto simp: nth_pageBackgrounds length_pageBackgrounds)
      (simp_all add: PageBreakVisualizer_def Let_def)
qed

theorem chrome_layout_witness:
  "int 2 < propTotalPages exampleProps \<and> 1 < length (propPageBreaks exampleProps) \<and>
   bgWidth (pageBackgrounds (PageBreakVisualizer exampleProps) ! 2) = 624 \<and>
   bgHeight (pageBackgrounds (PageBreakVisualizer exampleProps) ! 2) = 864 \<and>
   bgTop (pageBackgrounds (PageBreakVisualizer exampleProps) ! 2) = 2 * (864 + 28) \<and>
   lineTop (breakLines (PageBreakVisualizer exampleProps) ! 1) = 1728 + 96 \<and>
   lineLabel (breakLines (PageBreakVisualizer exampleProps) ! 1) = ''Page 2''"
  using chrome_layout[of 2 exampleProps 1]
  by (simp add: exampleProps_def PAGE_GAP_PX_def String_int_def String_nat.simps digit_char_def)

text \<open>
  Claim C5. On the page with index \<open>i\<close> the footer is: for a non-empty template, the
  template with \<open>{page}\<close> replaced by \<open>String(i + 1)\<close>, whatever \<open>showPageNumbers\<close> is;
  without a template and with page numbers shown, \<open>Page\<close> followed by \<open>i + 1\<close>; otherwise
  empty. \<open>String(i + 1)\<close> is the decimal numeral of \<open>i + 1\<close>.
\<close>

theorem footer_three_outcomes:
  "int i < propTotalPages p \<Longrightarrow>
   (\<forall>t. footerText p = Some t \<and> t \<noteq> [] \<longrightarrow>
      bgFooter (pageBackgrounds (PageBreakVisualizer p) ! i) =
        String_replace t ''{page}'' (String_nat (i + 1))) \<and>
   (\<not> truthy (footerText p) \<and> showPageNumbers p \<noteq> Some False \<longrightarrow>
      bgFooter (pageBackgrounds (PageBreakVisualizer p) ! i) = ''Page '' @ String_nat (i + 1)) \<and>
   (\<not> truthy (footerText p) \<and> showPageNumbers p = Some False \<longrightarrow>
      bgFooter (pageBackgrounds (PageBreakVisualizer p) ! i) = []) \<and>
   decimal_value (String_nat (i + 1)) = i + 1"
proof -
  assume "int i < propTotalPages p"
  then have "int i < max 1 (propTotalPages p)" by simp
  then show ?thesis
    by (auto simp: nth_pageBackgrounds footerContent_def truthy_def decimal_value_String_nat
        split: option.splits)
qed

theorem footer_three_outcomes_witness:
  "int 2 < propTotalPages exampleProps \<and>
   bgFooter (pageBackgrounds (PageBreakVisualizer exampleProps) ! 2) = ''Page 3 of N'' \<and>
   bgFooter (pageBackgrounds (PageBreakVisualizer (exampleProps\<lparr>footerText := Some []\<rparr>)) ! 0)
     = ''Page 1'' \<and>
   bgFooter (pageBackgrounds (PageBreakVisualizer
      (exampleProps\<lparr>footerText := Some [], showPageNumbers := Some False\<rparr>)) ! 0) = []"
  using footer_three_outcomes[of 2 exampleProps]
    footer_three_outcomes[of 0 "exampleProps\<lparr>footerText := Some []\<rparr>"]
    footer_three_outcomes[of 0 "exampleProps\<lparr>footerText := Some [], showPageNumbers := Some False\<rparr>"]
  by (simp add: exampleProps_def truthy_def String_nat.simps digit_char_def)

text \<open>
  Claim C10. When the template is \<open>a @ ''{page}'' @ b\<close> and \<open>{page}\<close> does not occur in
  \<open>a\<close>, the footer of page \<open>i\<close> is \<open>a\<close>, the page number, and \<open>b\<close> unchanged: only the
  leftmost \<open>{page}\<close> is replaced, every \<open>{page}\<close> in \<open>b\<close> stays as it is.
\<close>

theorem footer_first_occurrence_only:
  "int i < propTotalPages p \<Longrightarrow> footerText p = Some (a @ ''{page}'' @ b) \<Longrightarrow>
   \<not> sublist ''{page}'' a \<Longrightarrow>
   bgFooter (pageBackgrounds (PageBreakVisualizer p) ! i) = a @ String_nat (i + 1) @ b"
proof -
  assume i: "int i < propTotalPages p" and f: "footerText p = Some (a @ ''{page}'' @ b)"
    and a: "\<not> sublist ''{page}'' a"
  from i have "int i < max 1 (propTotalPages p)" by simp
  then have "bgFooter (pageBackgrounds (PageBreakVisualizer p) ! i) =
      String_replace (a @ ''{page}'' @ b) ''{page}'' (String_nat (i + 1))"
    using f by (simp add: nth_pageBackgrounds footerContent_def)
  also have "\<dots> = a @ String_nat (i + 1) @ b"
    by (rule String_replace_at[OF page_first_occurrence[OF a]])
  finally show ?thesis .
qed

theorem footer_first_occurrence_only_witness:
  "int 1 < propTotalPages (exampleProps\<lparr>footerText := Some (''p. '' @ ''{page}'' @ '' / {page}'')\<rparr>) \<and>
   \<not> sublist ''{page}'' ''p. '' \<and>
   bgFooter (pageBackgrounds (PageBreakVisualizer
       (exampleProps\<lparr>footerText := Some (''p. '' @ ''{page}'' @ '' / {page}'')\<rparr>)) ! 1)
     = ''p. 2 / {page}''"
proof -
  let ?p = "exampleProps\<lparr>footerText := Some (''p. '' @ ''{page}'' @ '' / {page}'')\<rparr>"
  have 1: "int 1 < propTotalPages ?p" by (simp add: exampleProps_def)
  have 2: "footerText ?p = Some (''p. '' @ ''{page}'' @ '' / {page}'')" by simp
  have 3: "\<not> sublist ''{page}'' ''p. ''" by (simp add: sublist_Cons_right prefix_Cons)
  from footer_first_occurrence_only[OF 1 2 3] 1 3 show ?thesis
    by (simp add: String_nat.simps digit_char_def)
qed

section \<open>Properties of the debounced recalculation\<close>

lemma calculatePageBreaks_total:
  "0 < P \<Longrightarrow> \<exists>st'. calculatePageBreaks P c st = Some st'"
  by (cases c) (simp_all add: calculatePageBreaks_Some, simp add: calculatePageBreaks_def)

lemma recalculate_mounted:
  "recalculate t1 (mounted st) =
     \<lparr>pagination = st, debounceTimerRef = Some 1, timers = [(1, t1 + 150)], nextTimerId = 2,
      recomputations = []\<rparr>"
  by (simp add: recalculate_def mounted_def setTimeout_def)

lemma two_triggers_state:
  assumes "t1 \<le> t2" "t2 < t1 + 150"
  shows "triggers P current [t1, t2] (mounted st) =
     Some \<lparr>pagination = st, debounceTimerRef = Some 2, timers = [(2, t2 + 150)], nextTimerId = 3,
      recomputations = []\<rparr>"
  using assms
  by (simp add: advance_def mounted_def recalculate_def setTimeout_def clearTimeout_def)

lemma advance_none: "timers h = [] \<Longrightarrow> advance P current t h = Some h"
  by (simp add: advance_def)

lemma advance_single:
  "timers h = [(i, d)] \<Longrightarrow>
   advance P current t h =
     (if d \<le> t
      then (case calculatePageBreaks P (current d) (pagination h) of
              None \<Rightarrow> None
            | Some st \<Rightarrow>
                Some (h\<lparr>timers := [], pagination := st,
                        recomputations := recomputations h @ [(d, current d)]\<rparr>))
      else Some h)"
  by (simp add: advance_def split: option.splits)

lemma recalculate_idle:
  "timers h = [] \<Longrightarrow>
   recalculate t h =
     h\<lparr>timers := [(nextTimerId h, t + 150)], nextTimerId := nextTimerId h + 1,
       debounceTimerRef := Some (nextTimerId h)\<rparr>"
  by (cases "debounceTimerRef h")
    (simp_all add: recalculate_def setTimeout_def clearTimeout_def)

lemma recalculate_pending:
  "timers h = [(i, d)] \<Longrightarrow> debounceTimerRef h = Some i \<Longrightarrow>
   recalculate t h =
     h\<lparr>timers := [(nextTimerId h, t + 150)], nextTimerId := nextTimerId h + 1,
       debounceTimerRef := Some (nextTimerId h)\<rparr>"
  by (simp add: recalculate_def setTimeout_def clearTimeout_def)

lemma debounce_pending:
  assumes P: "0 < P"
  shows "timers h = [(i, prev + 150)] \<Longrightarrow> debounceTimerRef h = Some i \<Longrightarrow>
    \<exists>h'. triggersThen P current ts tEnd h = Some h' \<and>
         recomputations h' =
           recomputations h @ map (\<lambda>t. (t, current t)) (debouncedRuns (prev # ts) tEnd) \<and>
         length (timers h') \<le> 1"
proof (induction ts arbitrary: prev h i)
  case Nil
  obtain st' where "calculatePageBreaks P (current (prev + 150)) (pagination h) = Some st'"
    using calculatePageBreaks_total[OF P] by blast
  then show ?case
    using Nil by (simp add: triggersThen_def advance_single)
next
  case (Cons t ts)
  obtain st' where st': "calculatePageBreaks P (current (prev + 150)) (pagination h) = Some st'"
    using calculatePageBreaks_total[OF P] by blast
  show ?case
  proof (cases "prev + 150 \<le> t")
    case True
    let ?h1 = "h\<lparr>timers := [], pagination := st',
                  recomputations := recomputations h @ [(prev + 150, current (prev + 150))]\<rparr>"
    let ?h2 = "recalculate t ?h1"
    have adv: "advance P current t h = Some ?h1"
      using Cons.prems(1) True st' by (simp add: advance_single)
    have t2: "timers ?h2 = [(nextTimerId h, t + 150)]"
      and r2: "debounceTimerRef ?h2 = Some (nextTimerId h)"
      and l2: "recomputations ?h2 =
                 recomputations h @ [(prev + 150, current (prev + 150))]"
      by (simp_all add: recalculate_idle)
    from Cons.IH[OF t2 r2] obtain h' where
      h': "triggersThen P current ts tEnd ?h2 = Some h'"
        "recomputations h' =
           recomputations ?h2 @ map (\<lambda>t. (t, current t)) (debouncedRuns (t # ts) tEnd)"
        "length (timers h') \<le> 1"
      by blast
    have "triggersThen P current (t # ts) tEnd h = Some h'"
      using h'(1) adv by (simp add: triggersThen_def)
    moreover have "recomputations h' =
        recomputations h @ map (\<lambda>t. (t, current t)) (debouncedRuns (prev # t # ts) tEnd)"
      using h'(2) True unfolding l2 by simp
    ultimately show ?thesis using h'(3) by blast
  next
    case False
    let ?h2 = "recalculate t h"
    have adv: "advance P current t h = Some h"
      using Cons.prems(1) False by (simp add: advance_single)
    have t2: "timers ?h2 = [(nextTimerId h, t + 150)]"
      and r2: "debounceTimerRef ?h2 = Some (nextTimerId h)"
      and l2: "recomputations ?h2 = recomputations h"
      using Cons.prems by (simp_all add: recalculate_pending)
    from Cons.IH[OF t2 r2] obtain h' where
      h': "triggersThen P current ts tEnd ?h2 = Some h'"
        "recomputations h' =
           recomputations ?h2 @ map (\<lambda>t. (t, current t)) (debouncedRuns (t # ts) tEnd)"
        "length (timers h') \<le> 1"
      by blast
    have "triggersThen P current (t # ts) tEnd h = Some h'"
      using h'(1) adv by (simp add: triggersThen_def)
    moreover have "recomputations h' =
        recomputations h @ map (\<lambda>t. (t, current t)) (debouncedRuns (prev # t # ts) tEnd)"
      using h'(2) False unfolding l2 by simp
    ultimately show ?thesis using h'(3) by blast
  qed
qed

lemma debounce_mounted:
  assumes P: "0 < P"
  shows "\<exists>h'. triggersThen P current ts tEnd (mounted st) = Some h' \<and>
         recomputations h' = map (\<lambda>t. (t, current t)) (debouncedRuns ts tEnd) \<and>
         length (timers h') \<le> 1"
proof (cases ts)
  case Nil
  then show ?thesis by (simp add: triggersThen_def advance_none mounted_def)
next
  case (Cons t ts')
  let ?h = "recalculate t (mounted st)"
  have 1: "timers ?h = [(1, t + 150)]" and 2: "debounceTimerRef ?h = Some 1"
    and 3: "recomputations ?h = []"
    by (simp_all add: recalculate_mounted)
  from debounce_pending[OF P 1 2, of current ts' tEnd] obtain h' where
    h': "triggersThen P current ts' tEnd ?h = Some h'"
      "recomputations h' =
         recomputations ?h @ map (\<lambda>t. (t, current t)) (debouncedRuns (t # ts') tEnd)"
      "length (timers h') \<le> 1"
    by blast
  have "triggersThen P current ts tEnd (mounted st) = Some h'"
    using h'(1) Cons by (simp add: triggersThen_def advance_none mounted_def)
  then show ?thesis using h'(2,3) Cons unfolding 3 by simp
qed

lemma debounce_two_triggers:
  assumes "0 < P" "t1 \<le> t2" "t2 < t1 + 150"
  shows "(tEnd < t2 + 150 \<longrightarrow>
            (\<exists>h. triggersThen P current [t1, t2] tEnd (mounted st) = Some h \<and>
                 recomputations h = [] \<and> pagination h = st \<and> timers h = [(2, t2 + 150)])) \<and>
         (t2 + 150 \<le> tEnd \<longrightarrow>
            (\<exists>h. triggersThen P current [t1, t2] tEnd (mounted st) = Some h \<and>
                 recomputations h = [(t2 + 150, current (t2 + 150))] \<and>
                 calculatePageBreaks P (current (t2 + 150)) st = Some (pagination h) \<and>
                 timers h = []))"
proof -
  obtain st' where st': "calculatePageBreaks P (current (t2 + 150)) st = Some st'"
    using calculatePageBreaks_total[OF assms(1)] by blast
  show ?thesis
    unfolding triggersThen_def two_triggers_state[OF assms(2,3)]
    using st' by (simp add: advance_def)
qed

lemma length_debouncedRuns: "length (debouncedRuns ts tEnd) \<le> length ts"
  by (induction ts tEnd rule: debouncedRuns.induct) simp_all

text \<open>
  Claim C9. After the triggers at the times \<open>ts\<close>, with the clock at \<open>tEnd\<close>, the
  recomputations that have run are those of the debounce rule, each with the height
  measured when it ran; no trigger causes more than one, and at most one timer is pending.
  Two triggers less than 150 ms apart cause exactly one recomputation, at 150 ms after the
  second, with the height measured then; before that time none has run.
\<close>

theorem debounce_coalesces:
  "0 < P \<Longrightarrow>
   (\<exists>h. triggersThen P current ts tEnd (mounted st) = Some h \<and>
        recomputations h = map (\<lambda>t. (t, current t)) (debouncedRuns ts tEnd) \<and>
        length (recomputations h) \<le> length ts \<and>
        length (timers h) \<le> 1) \<and>
   (t1 \<le> t2 \<and> t2 < t1 + 150 \<and> t2 + 150 \<le> tEnd \<longrightarrow>
      (\<exists>h. triggersThen P current [t1, t2] tEnd (mounted st) = Some h \<and>
           recomputations h = [(t2 + 150, current (t2 + 150))] \<and>
           calculatePageBreaks P (current (t2 + 150)) st = Some (pagination h) \<and>
           timers h = [])) \<and>
   (t1 \<le> t2 \<and> t2 < t1 + 150 \<and> tEnd < t2 + 150 \<longrightarrow>
      (\<exists>h. triggersThen P current [t1, t2] tEnd (mounted st) = Some h \<and>
           recomputations h = [] \<and> pagination h = st \<and> timers h = [(2, t2 + 150)]))"
proof -
  assume P: "0 < P"
  from debounce_mounted[OF P, of current ts tEnd st] obtain h where
    h: "triggersThen P current ts tEnd (mounted st) = Some h"
      "recomputations h = map (\<lambda>t. (t, current t)) (debouncedRuns ts tEnd)"
      "length (timers h) \<le> 1"
    by blast
  have "length (recomputations h) \<le> length ts"
    unfolding h(2) using length_debouncedRuns[of ts tEnd] by simp
  with h have A: "\<exists>h. triggersThen P current ts tEnd (mounted st) = Some h \<and>
        recomputations h = map (\<lambda>t. (t, current t)) (debouncedRuns ts tEnd) \<and>
        length (recomputations h) \<le> length ts \<and>
        length (timers h) \<le> 1"
    by blast
  show ?thesis
    using A debounce_two_triggers[OF P, of t1 t2 tEnd current st] by blast
qed

theorem debounce_coalesces_witness:
  "(0::int) < 864 \<and> (100::nat) \<le> 200 \<and> (200::nat) < 100 + 150 \<and>
   (200::nat) + 150 \<le> 400 \<and> (300::nat) < 200 + 150 \<and>
   triggersThen 864 exampleHeight [100, 200] 400 (mounted initialPagination) =
     Some \<lparr>pagination =
             \<lparr>pageBreaks = [\<lparr>pageNumber = 1, heightFromTop = 864\<rparr>,
                            \<lparr>pageNumber = 2, heightFromTop = 1728\<rparr>,
                            \<lparr>pageNumber = 3, heightFromTop = 2592\<rparr>,
                            \<lparr>pageNumber = 4, heightFromTop = 3456\<rparr>],
              totalPages = 5\<rparr>,
           debounceTimerRef = Some 2, timers = [], nextTimerId = 3,
           recomputations = [(350, Some 3500)]\<rparr> \<and>
   triggersThen 864 exampleHeight [100, 200] 300 (mounted initialPagination) =
     Some \<lparr>pagination = initialPagination,
           debounceTimerRef = Some 2, timers = [(2, 350)], nextTimerId = 3,
           recomputations = []\<rparr>"
  using debounce_coalesces[of 864 exampleHeight "[100, 200]" 400 initialPagination 100 200]
    debounce_coalesces[of 864 exampleHeight "[100, 200]" 300 initialPagination 100 200]
  by (simp add: triggersThen_def advance_def mounted_def recalculate_def setTimeout_def
      clearTimeout_def exampleHeight_def calculatePageBreaks_def pageBreaksLoop.simps
      Math_ceil_div_eq initialPagination_def)

end
